theory Spec2Isabelle
  imports Complex_Main
begin

section \<open>Connectome matrices\<close>

text \<open>
  The scripts work on two-dimensional numpy arrays. An array is modelled as the list of
  its rows; \<open>entry W i j\<close> is \<open>W[i, j]\<close>, \<open>shape0 W\<close> is \<open>W.shape[0]\<close>. The loaders and the
  conversion of weights to lengths are modelled in floating point, with the infinities
  and NaN (type \<open>fl\<close> below); the preprocessing steps that follow them work on a matrix
  of finite entries and are modelled over exact reals.
\<close>

type_synonym 'a array2 = "'a list list"

type_synonym matrix = "real array2"

datatype py_error = ValueError | IndexError | OtherError

definition shape0 :: "'a array2 \<Rightarrow> nat" where
  "shape0 W = length W"


definition entry :: "'a array2 \<Rightarrow> nat \<Rightarrow> nat \<Rightarrow> 'a" where
  "entry W i j = W ! i ! j"

definition tabulate2 :: "nat \<Rightarrow> (nat \<Rightarrow> nat \<Rightarrow> 'a) \<Rightarrow> 'a array2" where
  "tabulate2 n f = map (\<lambda>i. map (f i) [0..<n]) [0..<n]"

definition is_square :: "'a array2 \<Rightarrow> bool" where
  "is_square W \<longleftrightarrow> (\<forall>i<length W. length (W ! i) = length W)"

definition symmetric :: "matrix \<Rightarrow> bool" where
  "symmetric W \<longleftrightarrow> (\<forall>i<length W. \<forall>j<length W. entry W i j = entry W j i)"

definition zero_diagonal :: "matrix \<Rightarrow> bool" where
  "zero_diagonal W \<longleftrightarrow> (\<forall>i<length W. entry W i i = 0)"

definition non_negative :: "matrix \<Rightarrow> bool" where
  "non_negative W \<longleftrightarrow> (\<forall>i<length W. \<forall>j<length W. 0 \<le> entry W i j)"

text \<open>A cleaned matrix is what the loaders are meant to return.\<close>

definition cleaned :: "matrix \<Rightarrow> bool" where
  "cleaned W \<longleftrightarrow> is_square W \<and> symmetric W \<and> zero_diagonal W \<and> non_negative W"


subsection \<open>Floating-point values\<close>

text \<open>
  The loaders work in floating point: a value is a finite number, one of the two
  infinities, or NaN. A format is given by the threshold from which round-to-nearest
  overflows to an infinity, and by its rounding of the numbers below that threshold. The
  thresholds are those of IEEE 754 single and double precision (the largest finite
  number plus half a unit in the last place); the rounding function itself is left
  open, so every statement below holds for whatever it is.
\<close>

datatype fl = Finite real | PosInf | NegInf | NaN

record format =
  overflow_at :: real
  nearest :: "real \<Rightarrow> real"

definition float32 :: "(real \<Rightarrow> real) \<Rightarrow> format" where
  "float32 rnd = \<lparr>overflow_at = 2 ^ 128 - 2 ^ 103, nearest = rnd\<rparr>"


text \<open>The value of an exact result in a format.\<close>

definition to_float :: "format \<Rightarrow> real \<Rightarrow> fl" where
  "to_float fm x =
     (if overflow_at fm \<le> x then PosInf
      else if x \<le> - overflow_at fm then NegInf
      else Finite (nearest fm x))"

text \<open>\<open>astype\<close> on one value: infinities and NaN are kept.\<close>

definition fl_cast :: "format \<Rightarrow> fl \<Rightarrow> fl" where
  "fl_cast fm v = (case v of Finite x \<Rightarrow> to_float fm x | _ \<Rightarrow> v)"



text \<open>
  \<open>1.0 / v\<close> under \<open>np.errstate(divide='ignore', invalid='ignore')\<close>: the quotient
  overflows to infinity for a small divisor, and division by zero gives infinity.
\<close>

definition fl_reciprocal :: "format \<Rightarrow> fl \<Rightarrow> fl" where
  "fl_reciprocal fm v =
     (case v of
        Finite x \<Rightarrow> (if x = 0 then PosInf else to_float fm (1 / x))
      | PosInf \<Rightarrow> Finite 0
      | NegInf \<Rightarrow> Finite 0
      | NaN \<Rightarrow> NaN)"


definition fl_positive :: "fl \<Rightarrow> bool" where
  "fl_positive v = (case v of Finite x \<Rightarrow> 0 < x | PosInf \<Rightarrow> True | _ \<Rightarrow> False)"







subsection \<open>Loading and cleaning\<close>





text \<open>\<open>np.fill_diagonal(W, v)\<close> on a square array.\<close>

definition fill_diagonal :: "'a array2 \<Rightarrow> 'a \<Rightarrow> 'a array2" where
  "fill_diagonal W v = tabulate2 (length W) (\<lambda>i j. if i = j then v else entry W i j)"






subsection \<open>Weight normalization\<close>

text \<open>\<open>np.max(W)\<close>: the largest entry; numpy raises \<open>ValueError\<close> on an array with no entry.\<close>

definition np_max :: "matrix \<Rightarrow> py_error + real" where
  "np_max W = (case concat W of [] \<Rightarrow> Inl ValueError | x # xs \<Rightarrow> Inr (fold max xs x))"

definition divide_by :: "matrix \<Rightarrow> real \<Rightarrow> matrix" where
  "divide_by W m = map (map (\<lambda>x. x / m)) W"

text \<open>
  \<open>maybe_normalize\<close> of modularity.py, clustering_coefficient.py and node_strength.py
  (the three bodies differ only in a \<open>float(...)\<close> around the maximum).
\<close>

definition maybe_normalize :: "matrix \<Rightarrow> bool \<Rightarrow> py_error + matrix" where
  "maybe_normalize W enable =
     (if \<not> enable then Inr W
      else case np_max W of
             Inl e \<Rightarrow> Inl e
           | Inr m \<Rightarrow> if m > 0 then Inr (divide_by W m) else Inr W)"

text \<open>Running a second step on the result of a first one, an exception ending the run.\<close>

definition and_then :: "py_error + 'a \<Rightarrow> ('a \<Rightarrow> py_error + 'b) \<Rightarrow> py_error + 'b" where
  "and_then r f = (case r of Inl e \<Rightarrow> Inl e | Inr x \<Rightarrow> f x)"

subsection \<open>Group inference from the subject identifier\<close>

text \<open>\<open>s.split("_", 1)\<close>: the text before the first underscore and the text after it.\<close>

definition split1 :: "string \<Rightarrow> string list" where
  "split1 s =
     (case dropWhile (\<lambda>c. c \<noteq> CHR ''_'') s of
        [] \<Rightarrow> [s]
      | _ # rest \<Rightarrow> [takeWhile (\<lambda>c. c \<noteq> CHR ''_'') s, rest])"

text \<open>\<open>xs[i]\<close> for a non-negative index: \<open>IndexError\<close> out of range.\<close>

definition getitem :: "'a list \<Rightarrow> nat \<Rightarrow> py_error + 'a" where
  "getitem xs i = (if i < length xs then Inr (xs ! i) else Inl IndexError)"

text \<open>\<open>upper()\<close> on one character: the letters a to z are raised, other bytes are kept.\<close>

definition upper_char :: "char \<Rightarrow> char" where
  "upper_char c =
     (let n = (of_char c :: nat) in if 97 \<le> n \<and> n \<le> 122 then char_of (n - 32) else c)"

definition upper :: "string \<Rightarrow> string" where
  "upper s = map upper_char s"

text \<open>
  \<open>infer_group\<close> of global_efficiency.py and characteristic_path_lengh.py: the
  \<open>try\<close> block returns inside, and every exception falls through to \<open>return None\<close>.
\<close>

definition infer_group :: "string \<Rightarrow> string option" where
  "infer_group subj =
     (case and_then (getitem (split1 subj) 1) (\<lambda>t. getitem t 0) of
        Inl _ \<Rightarrow> None
      | Inr c \<Rightarrow>
          (let tag = upper_char c in
           if tag = CHR ''C'' then Some ''control''
           else if tag = CHR ''P'' then Some ''patient''
           else None))"

text \<open>
  \<open>infer_group\<close> of modularity.py, clustering_coefficient.py and node_strength.py: one
  conditional expression inside the \<open>try\<close>, \<open>None\<close> on every exception.
\<close>

definition infer_group_expr :: "string \<Rightarrow> string option" where
  "infer_group_expr subj =
     (case and_then (getitem (split1 subj) 1) (\<lambda>t. getitem t 0) of
        Inl _ \<Rightarrow> None
      | Inr c \<Rightarrow>
          (let ch = upper_char c in
           if ch = CHR ''C'' then Some ''control''
           else (if ch = CHR ''P'' then Some ''patient'' else None)))"

subsection \<open>Weights to lengths\<close>

text \<open>
  \<open>np.where(W > 0, 1.0 / W, np.inf)\<close>, in the format of the array \<open>W\<close> (single precision
  for what \<open>load_and_clean_W\<close> returns).
\<close>

definition inverse_lengths :: "format \<Rightarrow> fl array2 \<Rightarrow> fl array2" where
  "inverse_lengths fm W =
     map (map (\<lambda>w. if fl_positive w then fl_reciprocal fm w else PosInf)) W"

text \<open>
  \<open>characteristic_path_length_weighted\<close>. The two routines of the graph library,
  \<open>bct.distance_wei\<close> and \<open>bct.charpath\<close>, are parameters: each may raise.
\<close>

definition characteristic_path_length_weighted ::
  "format \<Rightarrow> (fl array2 \<Rightarrow> py_error + 'd) \<Rightarrow> ('d \<Rightarrow> py_error + fl) \<Rightarrow> fl array2 \<Rightarrow>
   py_error + fl" where
  "characteristic_path_length_weighted fm distance_wei charpath W =
     (let L = inverse_lengths fm W in and_then (distance_wei L) charpath)"

subsection \<open>Edge density\<close>

text \<open>
  From here on arrays are square, as the loaders return them: row and column indices
  range over \<open>0..<shape0 W\<close>.

  \<open>np.triu_indices(n, 1)\<close>: the positions above the diagonal, row by row.
\<close>

definition triu_indices :: "nat \<Rightarrow> (nat \<times> nat) list" where
  "triu_indices n = concat (map (\<lambda>i. map (\<lambda>j. (i, j)) [Suc i..<n]) [0..<n])"

text \<open>\<open>np.count_nonzero(np.triu(W, 1) > 0)\<close>.\<close>

definition count_edges :: "matrix \<Rightarrow> nat" where
  "count_edges W = length (filter (\<lambda>(i, j). entry W i j > 0) (triu_indices (shape0 W)))"

text \<open>
  \<open>density\<close> of modularity.py, node_strength.py and clustering_coefficient.py, equal to
  \<open>matrix_density\<close> of characteristic_path_lengh.py and to the inline expression of
  global_efficiency.py.
\<close>

definition density :: "matrix \<Rightarrow> real" where
  "density W =
     (let n = shape0 W in
      if n < 2 then 0 else (2 * real (count_edges W)) / (real n * (real n - 1)))"

subsection \<open>Thresholding\<close>

definition zeros_like :: "matrix \<Rightarrow> matrix" where
  "zeros_like W = map (map (\<lambda>x. 0)) W"


text \<open>\<open>np.where(M, W, 0.0)\<close> and \<open>np.maximum(U, U.T)\<close>.\<close>

definition where_mask :: "bool array2 \<Rightarrow> matrix \<Rightarrow> matrix" where
  "where_mask M W = tabulate2 (length W) (\<lambda>i j. if entry M i j then entry W i j else 0)"

definition maximum_transpose :: "matrix \<Rightarrow> matrix" where
  "maximum_transpose U = tabulate2 (length U) (\<lambda>i j. max (entry U i j) (entry U j i))"


text \<open>
  \<open>np.argpartition(ws, -k)[-k:]\<close>: positions of \<open>k\<close> largest entries of \<open>ws\<close>. numpy leaves
  the choice among equal weights (and the order of the result) open; here the
  positions are stably sorted by weight and the last \<open>k\<close> are taken.
\<close>

definition argpartition_top :: "real list \<Rightarrow> nat \<Rightarrow> nat list" where
  "argpartition_top ws k = drop (length ws - k) (sort_key (\<lambda>p. ws ! p) [0..<length ws])"

text \<open>Row \<open>i\<close> with its own entry zeroed (\<open>wi = W[i, :].copy(); wi[i] = 0.0\<close>).\<close>

definition row_without_self :: "matrix \<Rightarrow> nat \<Rightarrow> nat \<Rightarrow> real" where
  "row_without_self W i j = (if j = i then 0 else entry W i j)"

text \<open>\<open>nz = np.where(wi > 0)[0]\<close>.\<close>

definition positive_neighbors :: "matrix \<Rightarrow> nat \<Rightarrow> nat list" where
  "positive_neighbors W i = filter (\<lambda>j. row_without_self W i j > 0) [0..<shape0 W]"

text \<open>\<open>topk = nz[np.argpartition(wi[nz], -k)[-k:]]\<close> with \<open>k = min(knn_k, nz.size)\<close>.\<close>

definition topk_neighbors :: "matrix \<Rightarrow> nat \<Rightarrow> nat \<Rightarrow> nat list" where
  "topk_neighbors W knn_k i =
     (let nz = positive_neighbors W i;
          k = min knn_k (length nz)
      in map (\<lambda>p. nz ! p) (argpartition_top (map (row_without_self W i) nz) k))"

text \<open>One round of the backbone loop: \<open>continue\<close> when the node has no positive neighbor.\<close>

definition knn_step :: "matrix \<Rightarrow> nat \<Rightarrow> nat \<Rightarrow> bool array2 \<Rightarrow> bool array2" where
  "knn_step W knn_k i M =
     (if positive_neighbors W i = [] then M
      else (let topk = topk_neighbors W knn_k i in
            tabulate2 (length M)
              (\<lambda>a b. entry M a b \<or> (a = i \<and> b \<in> set topk) \<or> (b = i \<and> a \<in> set topk))))"

text \<open>
  \<open>threshold_to_target_density\<close> of modularity.py, returning
  \<open>(W_thr, target_used, available_density)\<close>. \<open>knn_k\<close> is a Python integer.
\<close>

definition threshold_to_target_density ::
  "matrix \<Rightarrow> real \<Rightarrow> int \<Rightarrow> matrix \<times> real \<times> real" where
  "threshold_to_target_density W target knn_k =
     (let n = shape0 W in
      if n < 2 then (zeros_like W, 0, 0)
      else
        (let pos = filter (\<lambda>(r, c). entry W r c > 0) (triu_indices n);
             pos_vals = map (\<lambda>(r, c). entry W r c) pos;
             m = length pos_vals;
             total_possible = n * (n - 1) div 2;
             avail_density =
               (if total_possible > 0 then (real m * 2) / (real n * (real n - 1)) else 0)
         in if m = 0 then (zeros_like W, 0, avail_density)
            else
              (let target_used = min target avail_density in
               if target_used \<le> 0 then (zeros_like W, target_used, avail_density)
               else
                 (let k_edges = max 1 (min (nat \<lfloor>target_used * real total_possible\<rfloor>) m);
                      kth = sort pos_vals ! (m - k_edges);
                      keep = filter (\<lambda>(r, c). entry W r c \<ge> kth) pos;
                      M0 = tabulate2 n (\<lambda>i j. (i, j) \<in> set keep);
                      M1 = tabulate2 n (\<lambda>i j. entry M0 i j \<or> entry M0 j i);
                      M2 = fill_diagonal M1 False;
                      M3 = (if knn_k > 0 then fold (knn_step W (nat knn_k)) [0..<n] M2 else M2);
                      U = where_mask M3 W
                  in (fill_diagonal (maximum_transpose U) 0, target_used, avail_density)))))"

subsection \<open>Largest connected component\<close>







text \<open>\<open>W[np.ix_(idx, idx)]\<close>.\<close>

definition submatrix :: "matrix \<Rightarrow> nat list \<Rightarrow> matrix" where
  "submatrix W idx = map (\<lambda>a. map (\<lambda>b. entry W a b) idx) idx"


subsection \<open>Merging the metric tables\<close>

text \<open>
  A cell of a metric table is a floating-point number (NaN for an empty cell) or text.
  A row is identified by its key, the columns subject, method and group; the group is
  missing (\<open>None\<close>) when \<open>infer_group\<close> found none, and pandas matches missing key values
  with each other. A table has the names of its other columns and its rows, each a key
  with the cells of the other columns.
\<close>

datatype cell = Number fl | Text string

type_synonym key = "string \<times> string \<times> string option"

record frame =
  columns :: "string list"
  records :: "(key \<times> cell list) list"

definition frame_keys :: "frame \<Rightarrow> key list" where
  "frame_keys F = map fst (records F)"

text \<open>A row of NaN cells, one for each column of the table.\<close>

definition nan_row :: "frame \<Rightarrow> cell list" where
  "nan_row F = replicate (length (columns F)) (Number NaN)"

text \<open>
  \<open>pd.merge(L, R, on=["subject", "method", "group"], how="outer", suffixes=...)\<close>: every
  row of \<open>L\<close> is joined with every row of \<open>R\<close> of the same key, or with NaN cells when
  \<open>R\<close> has none; the rows of \<open>R\<close> whose key is not in \<open>L\<close> follow, with NaN cells for the
  columns of \<open>L\<close>. A column name that occurs on both sides gets the suffix of its side.
  pandas sorts the result by key; the order of the rows is not modelled.
\<close>

definition merge_outer :: "string \<times> string \<Rightarrow> frame \<Rightarrow> frame \<Rightarrow> frame" where
  "merge_outer suffixes L R =
     \<lparr>columns =
        map (\<lambda>c. if c \<in> set (columns R) then c @ fst suffixes else c) (columns L) @
        map (\<lambda>c. if c \<in> set (columns L) then c @ snd suffixes else c) (columns R),
      records =
        concat (map (\<lambda>(k, vs).
                  case filter (\<lambda>(k', ws). k' = k) (records R) of
                    [] \<Rightarrow> [(k, vs @ nan_row R)]
                  | m # ms \<Rightarrow> map (\<lambda>(k', ws). (k, vs @ ws)) (m # ms))
                (records L)) @
        map (\<lambda>(k, ws). (k, nan_row L @ ws))
          (filter (\<lambda>(k, ws). k \<notin> set (frame_keys L)) (records R))\<rparr>"

text \<open>\<open>df.replace([np.inf, -np.inf], np.nan)\<close>.\<close>

definition inf_to_nan :: "cell \<Rightarrow> cell" where
  "inf_to_nan c = (if c = Number PosInf \<or> c = Number NegInf then Number NaN else c)"

definition replace_inf :: "frame \<Rightarrow> frame" where
  "replace_inf F =
     \<lparr>columns = columns F, records = map (\<lambda>(k, vs). (k, map inf_to_nan vs)) (records F)\<rparr>"

text \<open>
  The master table of analyze_metrics.py, from the three tables read and restricted to
  their metric columns (\<open>DataFrame.merge\<close> has the suffixes \<open>_x\<close> and \<open>_y\<close>).
\<close>

definition master_table :: "frame \<Rightarrow> frame \<Rightarrow> frame \<Rightarrow> frame" where
  "master_table ge cpl modu =
     (let df = merge_outer (''_x'', ''_y'') ge cpl;
          df = merge_outer (''_x'', ''_y'') df modu
      in replace_inf df)"

text \<open>The master table of analyze_clustering_strength.py.\<close>

definition clustering_strength_master :: "frame \<Rightarrow> frame \<Rightarrow> frame" where
  "clustering_strength_master clu strn =
     (let df = merge_outer (''_clu'', ''_str'') clu strn in replace_inf df)"

text \<open>The cells of the row of a key in a table, NaN cells when the table has no such row.\<close>

definition row_or_nan :: "frame \<Rightarrow> key \<Rightarrow> cell list" where
  "row_or_nan F k = (case map_of (records F) k of Some vs \<Rightarrow> vs | None \<Rightarrow> nan_row F)"

text \<open>Small tables, as the metric scripts write them.\<close>

definition example_ge :: frame where
  "example_ge =
     \<lparr>columns = [''global_efficiency''],
      records = [((''INsIDER_C1'', ''ACT'', Some ''control''), [Number (Finite 1)])]\<rparr>"

definition example_cpl :: frame where
  "example_cpl =
     \<lparr>columns = [''char_path_length''],
      records = [((''INsIDER_P2'', ''ACT'', Some ''patient''), [Number PosInf])]\<rparr>"

definition example_mod :: frame where
  "example_mod =
     \<lparr>columns = [''modularity_Q'', ''n_nodes'', ''density'', ''used_density'',
                 ''available_density''],
      records = []\<rparr>"

text \<open>A table with two rows of one key (two files of one subject and method).\<close>

definition example_repeated :: frame where
  "example_repeated =
     \<lparr>columns = [''global_efficiency''],
      records = [((''INsIDER_C1'', ''ACT'', Some ''control''), [Number (Finite 1)]),
                 ((''INsIDER_C1'', ''ACT'', Some ''control''), [Number (Finite 2)])]\<rparr>"

section \<open>Basic facts about arrays\<close>

lemma length_tabulate2 [simp]: "length (tabulate2 n f) = n"
  by (simp add: tabulate2_def)

lemma entry_tabulate2 [simp]: "i < n \<Longrightarrow> j < n \<Longrightarrow> entry (tabulate2 n f) i j = f i j"
  by (simp add: tabulate2_def entry_def)

lemma is_square_tabulate2 [simp]: "is_square (tabulate2 n f)"
  by (simp add: is_square_def tabulate2_def)


lemma length_map_map [simp]: "length (map (map g) W) = length W"
  by simp


lemma entry_map_map:
  "i < length W \<Longrightarrow> j < length (W ! i) \<Longrightarrow> entry (map (map g) W) i j = g (entry W i j)"
  by (simp add: entry_def)


lemma to_float_not_NaN [simp]: "to_float fm x \<noteq> NaN"
  by (simp add: to_float_def)

lemma fl_cast_to_float_not_NaN [simp]: "fl_cast fm (to_float fm' x) \<noteq> NaN"
  by (simp add: fl_cast_def to_float_def)









section \<open>What the loaders return\<close>










section \<open>Group inference\<close>

lemma split1_no_underscore: "CHR ''_'' \<notin> set s \<Longrightarrow> split1 s = [s]"
proof -
  assume "CHR ''_'' \<notin> set s"
  then have "dropWhile (\<lambda>c. c \<noteq> CHR ''_'') s = []"
    by (auto simp: dropWhile_eq_Nil_conv)
  then show ?thesis unfolding split1_def by (simp only: list.case)
qed

lemma split1_underscore:
  "CHR ''_'' \<notin> set pre \<Longrightarrow> split1 (pre @ CHR ''_'' # rest) = [pre, rest]"
proof -
  assume a: "CHR ''_'' \<notin> set pre"
  then have "\<forall>c\<in>set pre. c \<noteq> CHR ''_''" by auto
  then have d: "dropWhile (\<lambda>c. c \<noteq> CHR ''_'') (pre @ CHR ''_'' # rest) = CHR ''_'' # rest"
    and t: "takeWhile (\<lambda>c. c \<noteq> CHR ''_'') (pre @ CHR ''_'' # rest) = pre"
    by (simp_all add: dropWhile_append3 takeWhile_tail)
  show ?thesis by (simp add: split1_def d t del: dropWhile_append takeWhile_append)
qed

lemma of_char_lt_256: "(of_char c :: nat) < 256"
  by (metis of_char_mod_256 mod_less_divisor zero_less_numeral)

lemma upper_char_code: "(of_char (upper_char c) :: nat) =
   (if 97 \<le> (of_char c :: nat) \<and> (of_char c :: nat) \<le> 122 then of_char c - 32 else of_char c)"
  using of_char_lt_256 [of c] by (auto simp: upper_char_def Let_def)

lemma upper_char_eq_iff:
  assumes "65 \<le> k" "k \<le> 90"
  shows "upper_char c = char_of k \<longleftrightarrow> (of_char c :: nat) = k \<or> of_char c = k + 32"
proof -
  have "upper_char c = char_of k \<longleftrightarrow> (of_char (upper_char c) :: nat) = of_char (char_of k)"
    by (simp only: of_char_eq_iff)
  also have "(of_char (char_of k) :: nat) = k"
    using assms by simp
  finally show ?thesis
    using assms by (auto simp: upper_char_code)
qed

lemma chr_eq_iff: "c = char_of (k::nat) \<longleftrightarrow> (of_char c :: nat) = k mod 256"
proof -
  have "c = char_of k \<longleftrightarrow> (of_char c :: nat) = of_char (char_of k)"
    by (simp only: of_char_eq_iff)
  then show ?thesis by simp
qed

lemma upper_char_eq_C: "upper_char c = CHR ''C'' \<longleftrightarrow> c = CHR ''C'' \<or> c = CHR ''c''"
proof -
  have a: "CHR ''C'' = char_of (67::nat)" "CHR ''c'' = char_of (99::nat)"
    by (simp_all add: chr_eq_iff)
  show ?thesis
    unfolding a using upper_char_eq_iff [of 67 c] by (simp add: chr_eq_iff)
qed

lemma upper_char_eq_P: "upper_char c = CHR ''P'' \<longleftrightarrow> c = CHR ''P'' \<or> c = CHR ''p''"
proof -
  have a: "CHR ''P'' = char_of (80::nat)" "CHR ''p'' = char_of (112::nat)"
    by (simp_all add: chr_eq_iff)
  show ?thesis
    unfolding a using upper_char_eq_iff [of 80 c] by (simp add: chr_eq_iff)
qed

lemma infer_group_expr_eq: "infer_group_expr s = infer_group s"
  by (simp add: infer_group_expr_def infer_group_def)

text \<open>
  C9. For a subject identifier with an underscore, \<open>infer_group\<close> (in both of its
  source forms) returns "control" exactly when the first character after the first
  underscore is C or c, "patient" exactly when it is P or p, and \<open>None\<close> otherwise; it
  returns \<open>None\<close> when nothing follows the first underscore and when there is no
  underscore.
\<close>

theorem infer_group_first_letter:
  "(CHR ''_'' \<notin> set pre \<longrightarrow>
      infer_group (pre @ CHR ''_'' # c # rest) =
        (if c = CHR ''C'' \<or> c = CHR ''c'' then Some ''control''
         else if c = CHR ''P'' \<or> c = CHR ''p'' then Some ''patient'' else None) \<and>
      infer_group (pre @ ''_'') = None \<and>
      infer_group pre = None) \<and>
   infer_group_expr s = infer_group s"
proof -
  have "infer_group (pre @ CHR ''_'' # c # rest) =
        (if c = CHR ''C'' \<or> c = CHR ''c'' then Some ''control''
         else if c = CHR ''P'' \<or> c = CHR ''p'' then Some ''patient'' else None)"
    if "CHR ''_'' \<notin> set pre"
    using upper_char_eq_C [of c] upper_char_eq_P [of c]
    by (simp add: infer_group_def split1_underscore [OF that] getitem_def and_then_def Let_def)
  moreover have "infer_group (pre @ ''_'') = None" if "CHR ''_'' \<notin> set pre"
    by (simp add: infer_group_def split1_underscore [OF that] getitem_def and_then_def)
  moreover have "infer_group pre = None" if "CHR ''_'' \<notin> set pre"
    by (simp add: infer_group_def split1_no_underscore [OF that] getitem_def and_then_def)
  ultimately show ?thesis
    by (simp add: infer_group_expr_eq)
qed

theorem infer_group_first_letter_witness:
  "infer_group ''INsIDER_c019'' = Some ''control'' \<and> infer_group ''INsIDER_P39'' = Some ''patient'' \<and>
   infer_group ''INsIDER_x1'' = None \<and> infer_group ''INsIDER_'' = None \<and>
   infer_group ''INsIDER'' = None \<and> infer_group_expr ''INsIDER_C_1'' = Some ''control''"
  using infer_group_first_letter [of "''INsIDER''" "CHR ''c''" "''019''" "''INsIDER_C_1''"]
    infer_group_first_letter [of "''INsIDER''" "CHR ''P''" "''39''" "[]"]
    infer_group_first_letter [of "''INsIDER''" "CHR ''x''" "''1''" "[]"]
    infer_group_first_letter [of "''INsIDER''" "CHR ''C''" "''_1''" "[]"]
  by simp

section \<open>Normalization\<close>

lemma fold_max_divide:
  "0 < (m::real) \<Longrightarrow> fold max (map (\<lambda>x. x / m) xs) (x / m) = fold max xs x / m"
proof (induction xs arbitrary: x)
  case Nil
  then show ?case by simp
next
  case (Cons y ys)
  have "max (y / m) (x / m) = max y x / m"
    using Cons.prems by (simp add: max_def divide_le_cancel)
  then show ?case using Cons by simp
qed

lemma np_max_divide_by:
  assumes "np_max W = Inr m" "0 < m"
  shows "np_max (divide_by W m) = Inr 1"
proof -
  from assms(1) obtain x xs where c: "concat W = x # xs" and m: "m = fold max xs x"
    by (auto simp: np_max_def split: list.splits)
  have "concat (divide_by W m) = map (\<lambda>x. x / m) (concat W)"
    by (simp add: divide_by_def map_concat)
  then have "np_max (divide_by W m) = Inr (fold max (map (\<lambda>x. x / m) xs) (x / m))"
    by (simp add: np_max_def c)
  also have "\<dots> = Inr (fold max xs x / m)"
    using assms(2) by (simp add: fold_max_divide)
  finally show ?thesis using m assms(2) by simp
qed

text \<open>
  C10. With normalization enabled, \<open>maybe_normalize\<close> returns W divided by its maximum
  entry when the maximum is strictly positive, and the maximum of the result is then 1;
  it returns W unchanged when the maximum is not strictly positive. Over exact
  arithmetic it is idempotent: applying it to its own result changes nothing.
\<close>

theorem maybe_normalize_idempotent:
  "(np_max W = Inr m \<and> 0 < m \<longrightarrow>
      maybe_normalize W True = Inr (divide_by W m) \<and> np_max (divide_by W m) = Inr 1) \<and>
   (np_max W = Inr m \<and> \<not> 0 < m \<longrightarrow> maybe_normalize W True = Inr W) \<and>
   and_then (maybe_normalize W True) (\<lambda>U. maybe_normalize U True) = maybe_normalize W True"
proof -
  have idem: "and_then (maybe_normalize W True) (\<lambda>U. maybe_normalize U True) = maybe_normalize W True"
  proof (cases "np_max W")
    case (Inl e)
    then show ?thesis by (simp add: maybe_normalize_def and_then_def)
  next
    case (Inr k)
    show ?thesis
    proof (cases "0 < k")
      case True
      have "divide_by (divide_by W k) 1 = divide_by W k"
        by (simp add: divide_by_def)
      then show ?thesis
        using Inr True np_max_divide_by [OF Inr True]
        by (simp add: maybe_normalize_def and_then_def)
    next
      case False
      then show ?thesis using Inr by (simp add: maybe_normalize_def and_then_def)
    qed
  qed
  show ?thesis
    using idem np_max_divide_by [of W m] by (auto simp: maybe_normalize_def)
qed

lemma ex_np_max: "np_max [[0, 2], [2, 0]] = Inr 2"
  by (simp add: np_max_def)

lemma ex_np_max_zero: "np_max [[0, -1], [-1, 0]] = Inr 0"
  by (simp add: np_max_def)

theorem maybe_normalize_idempotent_witness:
  "maybe_normalize [[0, 2], [2, 0]] True = Inr [[0, 1], [1, 0]] \<and>
   np_max [[0, 1], [1, 0]] = Inr 1 \<and>
   maybe_normalize [[0, -1], [-1, 0]] True = Inr [[0, -1], [-1, 0]] \<and>
   and_then (maybe_normalize [[0, 2], [2, 0]] True) (\<lambda>U. maybe_normalize U True) =
     Inr [[0, 1], [1, 0]]"
  using maybe_normalize_idempotent [of "[[0, 2], [2, 0]]" 2]
    maybe_normalize_idempotent [of "[[0, -1], [-1, 0]]" 0] ex_np_max ex_np_max_zero
  by (auto simp: divide_by_def)

section \<open>Lengths from weights\<close>

text \<open>
  C7. In \<open>characteristic_path_length_weighted\<close> the matrix handed to the distance routine
  has, at every position, the floating-point quotient 1.0 / W[i][j] when W[i][j] > 0 and
  infinity otherwise (when W[i][j] <= 0, and for NaN). For a finite weight w > 0 the
  quotient is 1 / w rounded to the format of the array, and plus infinity when 1 / w
  reaches the overflow threshold of the format.
\<close>

theorem inverse_lengths_entries:
  "(i < length W \<and> j < length (W ! i) \<longrightarrow>
      entry (inverse_lengths fm W) i j =
        (if fl_positive (entry W i j) then fl_reciprocal fm (entry W i j) else PosInf) \<and>
      (entry W i j = Finite w \<and> 0 < w \<longrightarrow>
         entry (inverse_lengths fm W) i j = to_float fm (1 / w) \<and>
         (fm = float32 r32 \<longrightarrow>
            entry (inverse_lengths fm W) i j =
              (if 2 ^ 128 - 2 ^ 103 \<le> 1 / w then PosInf else Finite (r32 (1 / w))))) \<and>
      (entry W i j = Finite w \<and> w \<le> 0 \<longrightarrow> entry (inverse_lengths fm W) i j = PosInf)) \<and>
   length (inverse_lengths fm W) = length W \<and>
   characteristic_path_length_weighted fm distance_wei charpath W =
     and_then (distance_wei (inverse_lengths fm W)) charpath"
proof -
  have "to_float (float32 r32) (1 / w) =
      (if 2 ^ 128 - 2 ^ 103 \<le> 1 / w then PosInf else Finite (r32 (1 / w)))" if "0 < w"
  proof -
    have "0 < 1 / w" using that by simp
    moreover have "(0 :: real) < 2 ^ 128 - 2 ^ 103" by simp
    ultimately have "\<not> 1 / w \<le> - (2 ^ 128 - 2 ^ 103)" by linarith
    then show ?thesis by (simp add: to_float_def float32_def)
  qed
  then show ?thesis
    by (auto simp: inverse_lengths_def entry_map_map characteristic_path_length_weighted_def
        fl_positive_def fl_reciprocal_def)
qed

theorem inverse_lengths_entries_witness:
  "entry (inverse_lengths (float32 (\<lambda>x. x)) [[Finite 0, Finite 4], [Finite (1 / 2 ^ 140), Finite 0]]) 0 1
     = Finite (1 / 4) \<and>
   entry (inverse_lengths (float32 (\<lambda>x. x)) [[Finite 0, Finite 4], [Finite (1 / 2 ^ 140), Finite 0]]) 1 0
     = PosInf \<and>
   entry (inverse_lengths (float32 (\<lambda>x. x)) [[Finite 0, Finite 4], [Finite (1 / 2 ^ 140), Finite 0]]) 0 0
     = PosInf"
  using inverse_lengths_entries [of 0 "[[Finite 0, Finite 4], [Finite (1 / 2 ^ 140), Finite 0]]" 1
      "float32 (\<lambda>x. x)" 4 "\<lambda>x. x" "\<lambda>L. Inr L" "\<lambda>D. Inl ValueError"]
    inverse_lengths_entries [of 1 "[[Finite 0, Finite 4], [Finite (1 / 2 ^ 140), Finite 0]]" 0
      "float32 (\<lambda>x. x)" "1 / 2 ^ 140" "\<lambda>x. x" "\<lambda>L. Inr L" "\<lambda>D. Inl ValueError"]
    inverse_lengths_entries [of 0 "[[Finite 0, Finite 4], [Finite (1 / 2 ^ 140), Finite 0]]" 0
      "float32 (\<lambda>x. x)" 0 "\<lambda>x. x" "\<lambda>L. Inr L" "\<lambda>D. Inl ValueError"]
  by (simp add: entry_def inverse_lengths_def fl_positive_def fl_reciprocal_def to_float_def
      float32_def)

section \<open>Symmetry and zero diagonal are preserved\<close>

lemma length_fill_diagonal [simp]: "length (fill_diagonal W v) = length W"
  by (simp add: fill_diagonal_def)

lemma is_square_fill_diagonal [simp]: "is_square (fill_diagonal W v)"
  by (simp add: fill_diagonal_def)

lemma entry_fill_diagonal:
  "i < length W \<Longrightarrow> j < length W \<Longrightarrow>
   entry (fill_diagonal W v) i j = (if i = j then v else entry W i j)"
  by (simp add: fill_diagonal_def)

lemma length_maximum_transpose [simp]: "length (maximum_transpose U) = length U"
  by (simp add: maximum_transpose_def)

lemma entry_maximum_transpose:
  "i < length U \<Longrightarrow> j < length U \<Longrightarrow>
   entry (maximum_transpose U) i j = max (entry U i j) (entry U j i)"
  by (simp add: maximum_transpose_def)

lemma length_where_mask [simp]: "length (where_mask M W) = length W"
  by (simp add: where_mask_def)

lemma entry_where_mask:
  "i < length W \<Longrightarrow> j < length W \<Longrightarrow>
   entry (where_mask M W) i j = (if entry M i j then entry W i j else 0)"
  by (simp add: where_mask_def)

lemma length_zeros_like [simp]: "length (zeros_like W) = length W"
  by (simp add: zeros_like_def)














subsection \<open>The component restriction\<close>






lemma length_submatrix [simp]: "length (submatrix W idx) = length idx"
  by (simp add: submatrix_def)








section \<open>The nearest-neighbor backbone\<close>

subsection \<open>Selecting the largest weights\<close>

lemma argpartition_top_props:
  assumes "k \<le> length ws"
  shows "distinct (argpartition_top ws k)"
    and "set (argpartition_top ws k) \<subseteq> {0..<length ws}"
    and "length (argpartition_top ws k) = k"
proof -
  let ?s = "sort_key (\<lambda>p. ws ! p) [0..<length ws]"
  have "distinct ?s" by simp
  then show "distinct (argpartition_top ws k)"
    by (simp add: argpartition_top_def)
  have "set (drop (length ws - k) ?s) \<subseteq> set ?s"
    by (rule set_drop_subset)
  then show "set (argpartition_top ws k) \<subseteq> {0..<length ws}"
    by (simp add: argpartition_top_def)
  show "length (argpartition_top ws k) = k"
    using assms by (simp add: argpartition_top_def)
qed

lemma argpartition_top_largest:
  assumes "p \<in> set (argpartition_top ws k)" "q < length ws" "q \<notin> set (argpartition_top ws k)"
  shows "ws ! q \<le> ws ! p"
proof -
  let ?s = "sort_key (\<lambda>p. ws ! p) [0..<length ws]"
  let ?a = "take (length ws - k) ?s"
  let ?b = "drop (length ws - k) ?s"
  have split: "?s = ?a @ ?b" by simp
  have "sorted (map (\<lambda>p. ws ! p) ?s)" by (rule sorted_sort_key)
  then have "sorted (map (\<lambda>p. ws ! p) ?a @ map (\<lambda>p. ws ! p) ?b)"
    by (metis split map_append)
  then have ord: "\<forall>x\<in>set ?a. \<forall>y\<in>set ?b. ws ! x \<le> ws ! y"
    by (simp add: sorted_append)
  have "q \<in> set ?s" using assms(2) by simp
  then have "q \<in> set ?a \<union> set ?b"
    by (metis split set_append)
  with assms(3) have "q \<in> set ?a"
    by (simp add: argpartition_top_def)
  moreover have "p \<in> set ?b"
    using assms(1) by (simp add: argpartition_top_def)
  ultimately show ?thesis using ord by blast
qed

lemma distinct_positive_neighbors: "distinct (positive_neighbors W i)"
  by (simp add: positive_neighbors_def)

lemma positive_neighbors_iff:
  "j \<in> set (positive_neighbors W i) \<longleftrightarrow> j < shape0 W \<and> j \<noteq> i \<and> 0 < entry W i j"
  by (auto simp: positive_neighbors_def row_without_self_def)

lemma topk_neighbors_props:
  shows "distinct (topk_neighbors W k i)"
    and "set (topk_neighbors W k i) \<subseteq> set (positive_neighbors W i)"
    and "length (topk_neighbors W k i) = min k (length (positive_neighbors W i))"
proof -
  let ?nz = "positive_neighbors W i"
  let ?ws = "map (row_without_self W i) ?nz"
  let ?k = "min k (length ?nz)"
  let ?top = "argpartition_top ?ws ?k"
  have k: "?k \<le> length ?ws" by simp
  have T: "topk_neighbors W k i = map (\<lambda>p. ?nz ! p) ?top"
    by (simp add: topk_neighbors_def Let_def)
  have sub: "set ?top \<subseteq> {0..<length ?nz}"
    using argpartition_top_props(2) [OF k] by simp
  have "inj_on (\<lambda>p. ?nz ! p) (set ?top)"
  proof (rule inj_onI)
    fix x y
    assume xy: "x \<in> set ?top" "y \<in> set ?top" and eq: "?nz ! x = ?nz ! y"
    from xy sub have "x < length ?nz" "y < length ?nz" by auto
    with eq show "x = y"
      using distinct_positive_neighbors [of W i] by (simp add: nth_eq_iff_index_eq)
  qed
  then show "distinct (topk_neighbors W k i)"
    using argpartition_top_props(1) [OF k] by (simp add: T distinct_map)
  show "set (topk_neighbors W k i) \<subseteq> set ?nz"
    using sub by (auto simp: T)
  show "length (topk_neighbors W k i) = ?k"
    using argpartition_top_props(3) [OF k] by (simp add: T)
qed

lemma topk_neighbors_largest:
  assumes "j \<in> set (topk_neighbors W k i)"
    and "j' \<in> set (positive_neighbors W i)" "j' \<notin> set (topk_neighbors W k i)"
  shows "entry W i j' \<le> entry W i j"
proof -
  let ?nz = "positive_neighbors W i"
  let ?ws = "map (row_without_self W i) ?nz"
  let ?top = "argpartition_top ?ws (min k (length ?nz))"
  have T: "topk_neighbors W k i = map (\<lambda>p. ?nz ! p) ?top"
    by (simp add: topk_neighbors_def Let_def)
  have sub: "set ?top \<subseteq> {0..<length ?nz}"
    using argpartition_top_props(2) [of "min k (length ?nz)" ?ws] by simp
  from assms(1) obtain p where p: "p \<in> set ?top" "j = ?nz ! p"
    by (auto simp: T)
  from assms(2) obtain q where q: "q < length ?nz" "j' = ?nz ! q"
    by (auto simp: in_set_conv_nth)
  with assms(3) have "q \<notin> set ?top"
    by (auto simp: T)
  with p(1) q(1) have "?ws ! q \<le> ?ws ! p"
    using argpartition_top_largest [of p ?ws "min k (length ?nz)" q] by simp
  moreover have "p < length ?nz" using p(1) sub by auto
  ultimately have "row_without_self W i j' \<le> row_without_self W i j"
    using p(2) q by simp
  moreover have "j \<noteq> i" "j' \<noteq> i"
    using assms(1,2) topk_neighbors_props(2) [of W k i]
    by (auto simp: positive_neighbors_iff)
  ultimately show ?thesis
    by (simp add: row_without_self_def)
qed

subsection \<open>The backbone loop\<close>

lemma length_knn_step [simp]: "length (knn_step W k i M) = length M"
  by (simp add: knn_step_def Let_def)

lemma length_fold_knn_step [simp]: "length (fold (knn_step W k) xs M) = length M"
  by (induction xs arbitrary: M) simp_all

lemma knn_step_keeps:
  "a < length M \<Longrightarrow> b < length M \<Longrightarrow> entry M a b \<Longrightarrow> entry (knn_step W k i M) a b"
  by (simp add: knn_step_def Let_def)

lemma knn_step_sets:
  "i < length M \<Longrightarrow> j < length M \<Longrightarrow> positive_neighbors W i \<noteq> [] \<Longrightarrow>
   j \<in> set (topk_neighbors W k i) \<Longrightarrow> entry (knn_step W k i M) i j"
  by (simp add: knn_step_def Let_def)

lemma fold_knn_step_keeps:
  "a < length M \<Longrightarrow> b < length M \<Longrightarrow> entry M a b \<Longrightarrow> entry (fold (knn_step W k) xs M) a b"
  by (induction xs arbitrary: M) (simp_all add: knn_step_keeps)

lemma fold_knn_step_sets:
  "i \<in> set xs \<Longrightarrow> i < length M \<Longrightarrow> j < length M \<Longrightarrow> positive_neighbors W i \<noteq> [] \<Longrightarrow>
   j \<in> set (topk_neighbors W k i) \<Longrightarrow> entry (fold (knn_step W k) xs M) i j"
proof (induction xs arbitrary: M)
  case Nil
  then show ?case by simp
next
  case (Cons x xs)
  show ?case
  proof (cases "x = i")
    case True
    have "entry (knn_step W k i M) i j"
      using Cons.prems by (simp add: knn_step_sets)
    then show ?thesis
      using True Cons.prems by (simp add: fold_knn_step_keeps)
  next
    case False
    then show ?thesis using Cons by simp
  qed
qed

subsection \<open>Reaching the thresholding branch\<close>

lemma threshold_to_target_density_main:
  assumes n: "2 \<le> shape0 W"
    and pos: "filter (\<lambda>(r, c). 0 < entry W r c) (triu_indices (shape0 W)) \<noteq> []"
    and d: "0 < d"
  shows "\<exists>M2. fst (threshold_to_target_density W d k) =
             fill_diagonal (maximum_transpose (where_mask
               (if 0 < k then fold (knn_step W (nat k)) [0..<shape0 W] M2 else M2) W)) 0 \<and>
           length M2 = shape0 W"
proof -
  let ?n = "shape0 W"
  let ?pos = "filter (\<lambda>(r, c). 0 < entry W r c) (triu_indices ?n)"
  let ?m = "length (map (\<lambda>(r, c). entry W r c) ?pos)"
  let ?avail = "(real ?m * 2) / (real ?n * (real ?n - 1))"
  have m: "?m \<noteq> 0" using pos by simp
  have tp: "0 < ?n * (?n - 1) div 2" using n by (cases "shape0 W"; cases "shape0 W - 1") auto
  have "0 < real ?n * (real ?n - 1)" using n by simp
  moreover have "0 < real ?m * 2" using m by simp
  ultimately have "0 < ?avail" by (rule divide_pos_pos [rotated])
  with d have tu: "\<not> min d ?avail \<le> 0" by simp
  have nn: "\<not> ?n < 2" using n by simp
  let ?tu = "min d ?avail"
  let ?ke = "max 1 (min (nat \<lfloor>?tu * real (?n * (?n - 1) div 2)\<rfloor>) ?m)"
  let ?kth = "sort (map (\<lambda>(r, c). entry W r c) ?pos) ! (?m - ?ke)"
  let ?keep = "filter (\<lambda>(r, c). entry W r c \<ge> ?kth) ?pos"
  let ?M0 = "tabulate2 ?n (\<lambda>i j. (i, j) \<in> set ?keep)"
  let ?M2 = "fill_diagonal (tabulate2 ?n (\<lambda>i j. entry ?M0 i j \<or> entry ?M0 j i)) False"
  have eq0: "fst (threshold_to_target_density W d k) =
      (let target_used = min d ?avail;
           k_edges = max 1 (min (nat \<lfloor>target_used * real (?n * (?n - 1) div 2)\<rfloor>) ?m);
           kth = sort (map (\<lambda>(r, c). entry W r c) ?pos) ! (?m - k_edges);
           keep = filter (\<lambda>(r, c). entry W r c \<ge> kth) ?pos;
           M0 = tabulate2 ?n (\<lambda>i j. (i, j) \<in> set keep);
           M1 = tabulate2 ?n (\<lambda>i j. entry M0 i j \<or> entry M0 j i);
           M2 = fill_diagonal M1 False;
           M3 = (if k > 0 then fold (knn_step W (nat k)) [0..<?n] M2 else M2);
           U = where_mask M3 W
       in fill_diagonal (maximum_transpose U) 0)"
    using m tp tu nn by (simp add: threshold_to_target_density_def Let_def)
  have eq: "fst (threshold_to_target_density W d k) =
      fill_diagonal (maximum_transpose (where_mask
        (if 0 < k then fold (knn_step W (nat k)) [0..<?n] ?M2 else ?M2) W)) 0"
    using eq0 unfolding Let_def .
  have len: "length ?M2 = ?n"
    by (simp add: fill_diagonal_def length_tabulate2)
  show ?thesis by (rule exI [of _ ?M2]) (rule conjI [OF eq len])
qed

lemma set_triu_indices: "(a, b) \<in> set (triu_indices n) \<longleftrightarrow> a < b \<and> b < n"
  by (auto simp: triu_indices_def image_iff)

lemma positive_pair_exists:
  assumes "symmetric W" "i < shape0 W" "j \<in> set (positive_neighbors W i)"
  shows "filter (\<lambda>(r, c). 0 < entry W r c) (triu_indices (shape0 W)) \<noteq> []"
proof -
  from assms(3) have j: "j < shape0 W" "j \<noteq> i" "0 < entry W i j"
    by (simp_all add: positive_neighbors_iff)
  with assms(1,2) have "0 < entry W j i"
    by (simp add: symmetric_def shape0_def)
  with j assms(2) have "(min i j, max i j) \<in> set (triu_indices (shape0 W)) \<and>
      0 < entry W (min i j) (max i j)"
    by (auto simp: set_triu_indices min_def max_def)
  then have "(min i j, max i j) \<in>
      set (filter (\<lambda>(r, c). 0 < entry W r c) (triu_indices (shape0 W)))"
    by simp
  then show ?thesis by (metis empty_iff empty_set)
qed

lemma backbone_entry:
  assumes sym: "symmetric W" and d: "0 < d" and k: "1 \<le> k" and i: "i < shape0 W"
    and j: "j \<in> set (topk_neighbors W (nat k) i)"
  shows "entry (fst (threshold_to_target_density W d k)) i j = entry W i j"
    and "0 < entry W i j" and "j < shape0 W" and "j \<noteq> i"
proof -
  let ?n = "shape0 W"
  from j topk_neighbors_props(2) [of W "nat k" i]
  have jn: "j \<in> set (positive_neighbors W i)" by blast
  then show jprops: "0 < entry W i j" "j < ?n" "j \<noteq> i"
    by (simp_all add: positive_neighbors_iff)
  from jn have ne: "positive_neighbors W i \<noteq> []" by auto
  from i jprops have n2: "2 \<le> ?n" by linarith
  from threshold_to_target_density_main [OF n2 positive_pair_exists [OF sym i jn] d, of k] k
  obtain M2 where U: "fst (threshold_to_target_density W d k) =
      fill_diagonal (maximum_transpose (where_mask
        (fold (knn_step W (nat k)) [0..<?n] M2) W)) 0"
    and len: "length M2 = ?n"
    by auto
  let ?M3 = "fold (knn_step W (nat k)) [0..<?n] M2"
  have M3: "entry ?M3 i j"
    using i jprops(2) len ne j by (intro fold_knn_step_sets) simp_all
  have iL: "i < length W" and jL: "j < length W"
    using i jprops(2) by (simp_all add: shape0_def)
  have a: "entry (where_mask ?M3 W) i j = entry W i j"
    using iL jL M3 by (simp add: entry_where_mask)
  have b: "entry (where_mask ?M3 W) j i = entry W j i \<or> entry (where_mask ?M3 W) j i = 0"
    using iL jL by (simp add: entry_where_mask)
  have s: "entry W j i = entry W i j"
    using sym iL jL by (simp add: symmetric_def)
  have "entry (fst (threshold_to_target_density W d k)) i j =
      max (entry (where_mask ?M3 W) i j) (entry (where_mask ?M3 W) j i)"
    using iL jL jprops(3) by (simp add: U entry_fill_diagonal entry_maximum_transpose)
  also have "\<dots> = entry W i j"
    using a b s jprops(1) by auto
  finally show "entry (fst (threshold_to_target_density W d k)) i j = entry W i j" .
qed

text \<open>
  C4, for a positive target. For every cleaned matrix W, every target density d > 0 and
  every k >= 1, every node i with a strictly positive neighbor weight keeps, in the
  matrix returned by \<open>threshold_to_target_density\<close> with backbone size k, the edges to
  min(k, number of such neighbors) distinct neighbors: they are neighbors of largest
  weight among the positive edges of W at i, and they keep the weight they have in W.
\<close>

theorem knn_backbone_retained:
  assumes "cleaned W" "0 < d" "1 \<le> k" "i < shape0 W" "positive_neighbors W i \<noteq> []"
  shows "distinct (topk_neighbors W (nat k) i) \<and>
         set (topk_neighbors W (nat k) i) \<subseteq> set (positive_neighbors W i) \<and>
         length (topk_neighbors W (nat k) i) = min (nat k) (length (positive_neighbors W i)) \<and>
         (\<forall>j \<in> set (topk_neighbors W (nat k) i).
            entry (fst (threshold_to_target_density W d k)) i j = entry W i j \<and>
            0 < entry (fst (threshold_to_target_density W d k)) i j \<and>
            (\<forall>j' \<in> set (positive_neighbors W i) - set (topk_neighbors W (nat k) i).
               entry W i j' \<le> entry W i j)) \<and>
         min (nat k) (length (positive_neighbors W i)) \<le>
           length (filter (\<lambda>j. 0 < entry (fst (threshold_to_target_density W d k)) i j)
                     [0..<shape0 W])"
proof -
  let ?T = "topk_neighbors W (nat k) i"
  let ?U = "fst (threshold_to_target_density W d k)"
  from assms(1) have sym: "symmetric W" by (simp add: cleaned_def)
  note be = backbone_entry [OF sym assms(2,3,4)]
  have kept: "entry ?U i j = entry W i j \<and> 0 < entry ?U i j" if "j \<in> set ?T" for j
    using be(1,2) [OF that] by simp
  have "set ?T \<subseteq> set (filter (\<lambda>j. 0 < entry ?U i j) [0..<shape0 W])"
    using kept be(3) by auto
  then have "card (set ?T) \<le> card (set (filter (\<lambda>j. 0 < entry ?U i j) [0..<shape0 W]))"
    by (intro card_mono) simp_all
  also have "\<dots> \<le> length (filter (\<lambda>j. 0 < entry ?U i j) [0..<shape0 W])"
    by (rule card_length)
  finally have "length ?T \<le> length (filter (\<lambda>j. 0 < entry ?U i j) [0..<shape0 W])"
    using topk_neighbors_props(1) [of W "nat k" i] by (simp add: distinct_card)
  moreover have "\<forall>j \<in> set ?T. entry ?U i j = entry W i j \<and> 0 < entry ?U i j \<and>
      (\<forall>j' \<in> set (positive_neighbors W i) - set ?T. entry W i j' \<le> entry W i j)"
  proof (intro ballI conjI)
    fix j assume j: "j \<in> set ?T"
    from kept [OF j] show "entry ?U i j = entry W i j" "0 < entry ?U i j" by simp_all
    fix j' assume "j' \<in> set (positive_neighbors W i) - set ?T"
    with j show "entry W i j' \<le> entry W i j"
      by (intro topk_neighbors_largest [of j W "nat k" i j']) simp_all
  qed
  ultimately show ?thesis
    using topk_neighbors_props [of W "nat k" i] by (simp only: simp_thms)
qed

lemma ex_three_cleaned: "cleaned [[0, 1, 2], [1, 0, 3], [2, 3, 0]]"
  by (simp add: cleaned_def is_square_def symmetric_def zero_diagonal_def non_negative_def
      entry_def less_Suc_eq)

lemma ex_three_neighbors: "positive_neighbors [[0, 1, 2], [1, 0, 3], [2, 3, 0]] 0 = [1, 2]"
  by (simp add: positive_neighbors_def row_without_self_def shape0_def entry_def eval_nat_numeral)

lemma ex_three_topk: "topk_neighbors [[0, 1, 2], [1, 0, 3], [2, 3, 0]] 1 0 = [2]"
  by (simp add: topk_neighbors_def ex_three_neighbors argpartition_top_def row_without_self_def
      entry_def)

theorem knn_backbone_retained_witness:
  "topk_neighbors [[0, 1, 2], [1, 0, 3], [2, 3, 0]] 1 0 = [2] \<and>
   entry (fst (threshold_to_target_density [[0, 1, 2], [1, 0, 3], [2, 3, 0]] (1 / 10) 1)) 0 2 =
     entry [[0, 1, 2], [1, 0, 3], [2, 3, 0]] 0 2 \<and>
   0 < entry (fst (threshold_to_target_density [[0, 1, 2], [1, 0, 3], [2, 3, 0]] (1 / 10) 1)) 0 2"
proof -
  let ?W = "[[0, 1, 2], [1, 0, 3], [2, 3, 0 :: real]]"
  have d: "0 < (1 / 10 :: real)" and k: "1 \<le> (1 :: int)" by simp_all
  have i: "0 < shape0 ?W" by (simp add: shape0_def)
  have ne: "positive_neighbors ?W 0 \<noteq> []" by (simp add: ex_three_neighbors)
  have t: "topk_neighbors ?W (nat 1) 0 = [2]" using ex_three_topk by simp
  from knn_backbone_retained [OF ex_three_cleaned d k i ne]
  have "\<forall>j \<in> set (topk_neighbors ?W (nat 1) 0).
      entry (fst (threshold_to_target_density ?W (1 / 10) 1)) 0 j = entry ?W 0 j \<and>
      0 < entry (fst (threshold_to_target_density ?W (1 / 10) 1)) 0 j"
    by blast
  with t show ?thesis using ex_three_topk by simp
qed

text \<open>
  As stated for every target, C4 fails at the target 0: the function returns the zero
  matrix before the backbone loop, though node 0 has a positive neighbor.
\<close>

theorem knn_backbone_counterexample:
  "cleaned [[0, 1], [1, 0]] \<and> positive_neighbors [[0, 1], [1, 0]] 0 = [1] \<and>
   fst (threshold_to_target_density [[0, 1], [1, 0]] 0 1) = [[0, 0], [0, 0]]"
proof -
  have "cleaned [[0, 1], [1, 0]]"
    by (simp add: cleaned_def is_square_def symmetric_def zero_diagonal_def non_negative_def
        entry_def less_Suc_eq)
  moreover have "positive_neighbors [[0, 1], [1, 0]] 0 = [1]"
    by (simp add: positive_neighbors_def row_without_self_def shape0_def entry_def
        eval_nat_numeral)
  moreover have "fst (threshold_to_target_density [[0, 1], [1, 0]] 0 1) = [[0, 0], [0, 0]]"
    by (simp add: threshold_to_target_density_def shape0_def triu_indices_def entry_def
        zeros_like_def eval_nat_numeral Let_def)
  ultimately show ?thesis by simp
qed

section \<open>The master table is an outer join\<close>

lemma filter_key_absent:
  "k \<notin> fst ` set xs \<Longrightarrow> filter (\<lambda>(k', w). k' = k) xs = []"
  by (induction xs) auto

lemma filter_key_distinct:
  "distinct (map fst xs) \<Longrightarrow>
   filter (\<lambda>(k', w). k' = k) xs = (case map_of xs k of None \<Rightarrow> [] | Some w \<Rightarrow> [(k, w)])"
proof (induction xs)
  case Nil
  then show ?case by simp
next
  case (Cons a xs)
  obtain a1 a2 where a: "a = (a1, a2)" by (cases a)
  show ?case
  proof (cases "a1 = k")
    case True
    with Cons.prems a have "k \<notin> fst ` set xs" by simp
    then have "filter (\<lambda>(k', w). k' = k) xs = []" by (rule filter_key_absent)
    then show ?thesis using True a by simp
  next
    case False
    then show ?thesis using Cons a by simp
  qed
qed

lemma map_of_keyed_map:
  "map_of (map (\<lambda>(k, v). (k, f k v)) xs) k = map_option (f k) (map_of xs k)"
  by (induction xs) auto

lemma map_of_key_filter:
  "map_of (filter (\<lambda>(k, v). P k) xs) k = (if P k then map_of xs k else None)"
  by (induction xs) auto

lemma keys_key_filter:
  "map fst (filter (\<lambda>(k, v). P k) xs) = filter P (map fst xs)"
  by (induction xs) auto

lemma keys_keyed_map: "map fst (map (\<lambda>(k, v). (k, f k v)) xs) = map fst xs"
  by (induction xs) auto

lemma map_of_None_keys: "map_of xs k = None \<longleftrightarrow> k \<notin> set (map fst xs)"
  by (simp add: map_of_eq_None_iff)

lemma concat_keyed_singletons:
  "concat (map (\<lambda>(k, vs). [f k vs]) xs) = map (\<lambda>(k, vs). f k vs) xs"
  by (induction xs) auto

lemma records_merge_outer:
  assumes "distinct (frame_keys R)"
  shows "records (merge_outer s L R) =
         map (\<lambda>(k, vs). (k, vs @ row_or_nan R k)) (records L) @
         map (\<lambda>(k, ws). (k, nan_row L @ ws))
           (filter (\<lambda>(k, ws). k \<notin> set (frame_keys L)) (records R))"
proof -
  have "(\<lambda>(k :: key, vs). case filter (\<lambda>(k', ws). k' = k) (records R) of
           [] \<Rightarrow> [(k, vs @ nan_row R)]
         | m # ms \<Rightarrow> map (\<lambda>(k', ws). (k, vs @ ws)) (m # ms)) =
        (\<lambda>(k, vs). [(k, vs @ row_or_nan R k)])"
    using assms
    by (auto simp: fun_eq_iff filter_key_distinct frame_keys_def row_or_nan_def
        split: option.split)
  then show ?thesis
    by (simp add: merge_outer_def concat_keyed_singletons)
qed

lemma keys_merge_outer:
  assumes "distinct (frame_keys R)"
  shows "frame_keys (merge_outer s L R) =
         frame_keys L @ filter (\<lambda>k. k \<notin> set (frame_keys L)) (frame_keys R)"
  unfolding frame_keys_def [of "merge_outer s L R"] records_merge_outer [OF assms]
  by (simp add: keys_keyed_map keys_key_filter frame_keys_def del: map_map)

lemma distinct_merge_outer:
  assumes "distinct (frame_keys L)" "distinct (frame_keys R)"
  shows "distinct (frame_keys (merge_outer s L R))"
    and "set (frame_keys (merge_outer s L R)) = set (frame_keys L) \<union> set (frame_keys R)"
  using assms by (auto simp: keys_merge_outer)

lemma nan_row_merge_outer: "nan_row (merge_outer s L R) = nan_row L @ nan_row R"
  by (simp add: nan_row_def merge_outer_def replicate_add)

lemma row_merge_outer:
  assumes "distinct (frame_keys R)"
  shows "row_or_nan (merge_outer s L R) k = row_or_nan L k @ row_or_nan R k"
proof (cases "map_of (records L) k")
  case (Some vs)
  then show ?thesis
    by (simp add: row_or_nan_def [of "merge_outer s L R"] records_merge_outer [OF assms]
        map_add_def map_of_keyed_map map_of_key_filter row_or_nan_def [of L])
next
  case None
  then have k: "k \<notin> set (frame_keys L)"
    by (simp add: map_of_None_keys frame_keys_def)
  show ?thesis
  proof (cases "map_of (records R) k")
    case None': None
    then show ?thesis
      using None
      by (simp add: row_or_nan_def [of "merge_outer s L R"] records_merge_outer [OF assms]
          map_add_def map_of_keyed_map map_of_key_filter nan_row_merge_outer
          row_or_nan_def [of L] row_or_nan_def [of R])
  next
    case (Some ws)
    then show ?thesis
      using None k
      by (simp add: row_or_nan_def [of "merge_outer s L R"] records_merge_outer [OF assms]
          map_add_def map_of_keyed_map map_of_key_filter
          row_or_nan_def [of L] row_or_nan_def [of R])
  qed
qed

lemma keys_replace_inf: "frame_keys (replace_inf F) = frame_keys F"
  by (simp add: frame_keys_def replace_inf_def keys_keyed_map del: map_map)

lemma row_replace_inf: "row_or_nan (replace_inf F) k = map inf_to_nan (row_or_nan F k)"
  by (cases "map_of (records F) k")
    (simp_all add: row_or_nan_def replace_inf_def map_of_keyed_map nan_row_def inf_to_nan_def)

lemma inf_to_nan_no_inf: "inf_to_nan c \<noteq> Number PosInf \<and> inf_to_nan c \<noteq> Number NegInf"
  by (simp add: inf_to_nan_def)

lemma replace_inf_no_inf:
  "(k, vs) \<in> set (records (replace_inf F)) \<Longrightarrow>
   Number PosInf \<notin> set vs \<and> Number NegInf \<notin> set vs"
  by (auto simp: replace_inf_def inf_to_nan_def split: if_splits)

lemma row_of_key:
  "k \<in> set (frame_keys F) \<Longrightarrow> map_of (records F) k = Some (row_or_nan F k)"
  by (cases "map_of (records F) k") (simp_all add: row_or_nan_def map_of_None_keys frame_keys_def)

text \<open>
  C8, for input tables without repeated keys. When no key triple occurs twice within an
  input table, every key triple present in at least one input table appears in the
  master table exactly once (and no other key does); its row holds the cells of the
  key's row in each input table, in the order of the merge, with NaN cells for a table
  where the key is absent; and no cell of the master table is an infinity: each has
  been replaced by NaN. This holds for the master table of analyze_metrics.py and for
  the one of analyze_clustering_strength.py.
\<close>

theorem master_table_outer_join:
  assumes "distinct (frame_keys ge)" "distinct (frame_keys cpl)" "distinct (frame_keys modu)"
    and "distinct (frame_keys clu)" "distinct (frame_keys strn)"
  shows "distinct (frame_keys (master_table ge cpl modu)) \<and>
         set (frame_keys (master_table ge cpl modu)) =
           set (frame_keys ge) \<union> set (frame_keys cpl) \<union> set (frame_keys modu) \<and>
         (\<forall>k \<in> set (frame_keys (master_table ge cpl modu)).
            map_of (records (master_table ge cpl modu)) k =
              Some (map inf_to_nan (row_or_nan ge k @ row_or_nan cpl k @ row_or_nan modu k))) \<and>
         (\<forall>(k, vs) \<in> set (records (master_table ge cpl modu)).
            Number PosInf \<notin> set vs \<and> Number NegInf \<notin> set vs) \<and>
         distinct (frame_keys (clustering_strength_master clu strn)) \<and>
         set (frame_keys (clustering_strength_master clu strn)) =
           set (frame_keys clu) \<union> set (frame_keys strn) \<and>
         (\<forall>k \<in> set (frame_keys (clustering_strength_master clu strn)).
            map_of (records (clustering_strength_master clu strn)) k =
              Some (map inf_to_nan (row_or_nan clu k @ row_or_nan strn k))) \<and>
         (\<forall>(k, vs) \<in> set (records (clustering_strength_master clu strn)).
            Number PosInf \<notin> set vs \<and> Number NegInf \<notin> set vs)"
proof -
  let ?A = "merge_outer (''_x'', ''_y'') ge cpl"
  let ?B = "merge_outer (''_x'', ''_y'') ?A modu"
  let ?C = "merge_outer (''_clu'', ''_str'') clu strn"
  have M: "master_table ge cpl modu = replace_inf ?B"
    and N: "clustering_strength_master clu strn = replace_inf ?C"
    by (simp_all add: master_table_def clustering_strength_master_def)
  have dA: "distinct (frame_keys ?A)"
    and sA: "set (frame_keys ?A) = set (frame_keys ge) \<union> set (frame_keys cpl)"
    using assms(1,2) by (rule distinct_merge_outer)+
  have dB: "distinct (frame_keys ?B)"
    and sB: "set (frame_keys ?B) = set (frame_keys ?A) \<union> set (frame_keys modu)"
    using dA assms(3) by (rule distinct_merge_outer)+
  have dC: "distinct (frame_keys ?C)"
    and sC: "set (frame_keys ?C) = set (frame_keys clu) \<union> set (frame_keys strn)"
    using assms(4,5) by (rule distinct_merge_outer)+
  have rB: "row_or_nan (replace_inf ?B) k =
      map inf_to_nan (row_or_nan ge k @ row_or_nan cpl k @ row_or_nan modu k)" for k
    by (simp add: row_replace_inf row_merge_outer [OF assms(3)] row_merge_outer [OF assms(2)])
  have rC: "row_or_nan (replace_inf ?C) k =
      map inf_to_nan (row_or_nan clu k @ row_or_nan strn k)" for k
    by (simp add: row_replace_inf row_merge_outer [OF assms(5)])
  have "\<forall>k \<in> set (frame_keys (replace_inf ?B)). map_of (records (replace_inf ?B)) k =
      Some (map inf_to_nan (row_or_nan ge k @ row_or_nan cpl k @ row_or_nan modu k))"
    using row_of_key [of _ "replace_inf ?B"] by (simp only: rB) blast
  moreover have "\<forall>k \<in> set (frame_keys (replace_inf ?C)). map_of (records (replace_inf ?C)) k =
      Some (map inf_to_nan (row_or_nan clu k @ row_or_nan strn k))"
    using row_of_key [of _ "replace_inf ?C"] by (simp only: rC) blast
  moreover have "\<forall>(k, vs) \<in> set (records (replace_inf F)).
      Number PosInf \<notin> set vs \<and> Number NegInf \<notin> set vs" for F
    using replace_inf_no_inf [of _ _ F] by blast
  ultimately show ?thesis
    unfolding M N using dB dC sA sB sC by (simp only: keys_replace_inf) blast
qed

lemma example_master:
  "records (master_table example_ge example_cpl example_mod) =
     [((''INsIDER_C1'', ''ACT'', Some ''control''),
       [Number (Finite 1), Number NaN, Number NaN, Number NaN, Number NaN, Number NaN,
        Number NaN]),
      ((''INsIDER_P2'', ''ACT'', Some ''patient''),
       [Number NaN, Number NaN, Number NaN, Number NaN, Number NaN, Number NaN,
        Number NaN])]"
  by (simp add: master_table_def merge_outer_def replace_inf_def example_ge_def example_cpl_def
      example_mod_def nan_row_def frame_keys_def inf_to_nan_def eval_nat_numeral)

theorem master_table_outer_join_witness:
  "distinct (frame_keys (master_table example_ge example_cpl example_mod)) \<and>
   set (frame_keys (master_table example_ge example_cpl example_mod)) =
     {(''INsIDER_C1'', ''ACT'', Some ''control''), (''INsIDER_P2'', ''ACT'', Some ''patient'')} \<and>
   map_of (records (master_table example_ge example_cpl example_mod))
       (''INsIDER_P2'', ''ACT'', Some ''patient'') =
     Some [Number NaN, Number NaN, Number NaN, Number NaN, Number NaN, Number NaN, Number NaN]"
proof -
  have "distinct (frame_keys example_ge)" "distinct (frame_keys example_cpl)"
    "distinct (frame_keys example_mod)"
    by (simp_all add: frame_keys_def example_ge_def example_cpl_def example_mod_def)
  from master_table_outer_join [OF this this(1,2)]
  have "distinct (frame_keys (master_table example_ge example_cpl example_mod))"
    "set (frame_keys (master_table example_ge example_cpl example_mod)) =
       set (frame_keys example_ge) \<union> set (frame_keys example_cpl) \<union>
       set (frame_keys example_mod)"
    by blast+
  then show ?thesis
    by (simp add: example_master)
      (auto simp: frame_keys_def example_ge_def example_cpl_def example_mod_def)
qed

text \<open>
  As stated for all input tables, C8 fails when a key occurs twice within one table: the
  merge keeps one row for each of its occurrences, so the key appears twice in the
  master table.
\<close>

theorem master_table_counterexample:
  "frame_keys (master_table example_repeated example_cpl example_mod) =
     [(''INsIDER_C1'', ''ACT'', Some ''control''), (''INsIDER_C1'', ''ACT'', Some ''control''),
      (''INsIDER_P2'', ''ACT'', Some ''patient'')] \<and>
   \<not> distinct (frame_keys (master_table example_repeated example_cpl example_mod))"
  by (simp add: master_table_def merge_outer_def replace_inf_def example_repeated_def
      example_cpl_def example_mod_def nan_row_def frame_keys_def)

end
